theory Spec2Isabelle
  imports Complex_Main "HOL-Library.Word" "HOL-Library.List_Lexorder"
    "HOL-Library.Product_Lexorder"
begin

unbundle bit_operations_syntax

section \<open>Python strings\<close>

text \<open>
  A Python \<open>str\<close> is a sequence of Unicode code points: \<open>len\<close> counts code points and the
  \<open>re\<close> module matches one code point at a time. A string is therefore a list of code
  point numbers. Every string of the application is the value of a Streamlit widget or the
  text of a response, so it is well-formed text (no lone surrogate), on which
  \<open>str.encode()\<close> and the parameter binding of \<open>sqlite3\<close> are total.
\<close>

type_synonym codepoint = nat
type_synonym pystr = "codepoint list"

text \<open>A source literal, written with its ASCII characters.\<close>

definition lit :: "string \<Rightarrow> pystr" where
  "lit s = map of_char s"

section \<open>The \<open>re\<close> module, as far as \<open>validate_password\<close> uses it\<close>

text \<open>
  The pattern of \<open>validate_password\<close> is built from \<open>^\<close>, \<open>$\<close>, character classes,
  greedy repetition of a class (\<open>.*\<close> and \<open>[...]{8,}\<close>), the lookahead \<open>(?=...)\<close> and
  concatenation. \<open>Rep n X\<close> is \<open>X{n,}\<close>, so \<open>X*\<close> is \<open>Rep 0 X\<close>.
\<close>

type_synonym charclass = "codepoint \<Rightarrow> bool"

datatype regex =
    Bol
  | Eol
  | Cls charclass
  | Rep nat charclass
  | Look regex
  | Seq regex regex

text \<open>
  The matcher backtracks as \<open>sre\<close> does: a continuation receives the position reached
  (the number of characters consumed and the rest of the string) and says whether the rest
  of the pattern matches from there. \<open>re.match\<close> returns a match object exactly when some
  path succeeds, and a match object is always true.

  Without flags, \<open>^\<close> matches at the start of the string only, \<open>.\<close> matches every
  character but the line feed (code point 10), and \<open>$\<close> matches at the end of the string
  and also just before a line feed that is the last character of the string.
\<close>

type_synonym cont = "nat \<Rightarrow> pystr \<Rightarrow> bool"

fun star :: "charclass \<Rightarrow> cont \<Rightarrow> nat \<Rightarrow> pystr \<Rightarrow> bool" where
  "star P k i [] = k i []"
| "star P k i (c # cs) = ((P c \<and> star P k (Suc i) cs) \<or> k i (c # cs))"

fun rep :: "nat \<Rightarrow> charclass \<Rightarrow> cont \<Rightarrow> nat \<Rightarrow> pystr \<Rightarrow> bool" where
  "rep 0 P k i xs = star P k i xs"
| "rep (Suc n) P k i [] = False"
| "rep (Suc n) P k i (c # cs) = (P c \<and> rep n P k (Suc i) cs)"

definition accept :: cont where
  "accept i xs = True"

primrec run :: "regex \<Rightarrow> cont \<Rightarrow> nat \<Rightarrow> pystr \<Rightarrow> bool" where
  "run Bol k i xs = (i = 0 \<and> k i xs)"
| "run Eol k i xs = ((xs = [] \<or> xs = [10]) \<and> k i xs)"
| "run (Cls P) k i xs = (case xs of [] \<Rightarrow> False | c # cs \<Rightarrow> P c \<and> k (Suc i) cs)"
| "run (Rep n P) k i xs = rep n P k i xs"
| "run (Look r) k i xs = (run r accept i xs \<and> k i xs)"
| "run (Seq r1 r2) k i xs = run r1 (run r2 k) i xs"

definition re_match :: "regex \<Rightarrow> pystr \<Rightarrow> bool" where
  "re_match r s = run r accept 0 s"

subsection \<open>Character classes\<close>

definition range_cls :: "char \<Rightarrow> char \<Rightarrow> charclass" where
  "range_cls a b c = (of_char a \<le> c \<and> c \<le> of_char b)"

definition set_cls :: "string \<Rightarrow> charclass" where
  "set_cls s c = (c \<in> set (map of_char s))"

definition dot :: charclass where
  "dot c = (c \<noteq> 10)"

text \<open>
  In a \<open>str\<close> pattern \<open>\d\<close> matches every Unicode decimal digit (category Nd), not only
  \<open>0\<close> to \<open>9\<close>. The Nd table belongs to the Python runtime, not to this repository: the
  parameter \<open>nd\<close> is that table outside ASCII; inside ASCII the decimal digits are
  \<open>0\<close> to \<open>9\<close>.
\<close>

definition category_digit :: "charclass \<Rightarrow> charclass" where
  "category_digit nd c = (range_cls CHR ''0'' CHR ''9'' c \<or> (128 \<le> c \<and> nd c))"

definition union_cls :: "charclass list \<Rightarrow> charclass" where
  "union_cls Ps c = list_ex (\<lambda>P. P c) Ps"

definition lower :: charclass where
  "lower = range_cls CHR ''a'' CHR ''z''"

definition upper :: charclass where
  "upper = range_cls CHR ''A'' CHR ''Z''"

definition special :: charclass where
  "special = set_cls ''@$!%*?&''"

text \<open>The class \<open>[A-Za-z\d@$!%*?&]\<close>.\<close>

definition allowed :: "charclass \<Rightarrow> charclass" where
  "allowed nd = union_cls [upper, lower, category_digit nd, special]"

section \<open>Auth functions: the password policy\<close>

text \<open>
  \<^verbatim>\<open>
  def validate_password(password):
      pattern = r'^(?=.*[a-z])(?=.*[A-Z])(?=.*\d)(?=.*[@$!%*?&])[A-Za-z\d@$!%*?&]{8,}$'
      return re.match(pattern, password)
  \<close>
  Every caller tests the result for truth.
\<close>

definition pattern :: "charclass \<Rightarrow> regex" where
  "pattern nd =
     Seq Bol
    (Seq (Look (Seq (Rep 0 dot) (Cls lower)))
    (Seq (Look (Seq (Rep 0 dot) (Cls upper)))
    (Seq (Look (Seq (Rep 0 dot) (Cls (category_digit nd))))
    (Seq (Look (Seq (Rep 0 dot) (Cls special)))
    (Seq (Rep 8 (allowed nd)) Eol)))))"

definition validate_password :: "charclass \<Rightarrow> pystr \<Rightarrow> bool" where
  "validate_password nd password = re_match (pattern nd) password"

text \<open>
  The policy in the words of the specification: at least 8 characters, a lowercase letter,
  an uppercase letter, a digit, a special character, and every character in the allowed
  alphabet.
\<close>

definition password_policy :: "charclass \<Rightarrow> pystr \<Rightarrow> bool" where
  "password_policy nd p \<longleftrightarrow>
     8 \<le> length p \<and> list_ex lower p \<and> list_ex upper p \<and>
     list_ex (category_digit nd) p \<and> list_ex special p \<and> list_all (allowed nd) p"

section \<open>Hashing: \<open>hashlib.sha256(password.encode()).hexdigest()\<close>\<close>

text \<open>
  \<open>str.encode()\<close> is UTF-8; SHA-256 is the function of FIPS 180-4; \<open>hexdigest\<close> writes
  the 32 bytes of the digest as 64 lowercase hexadecimal characters.
\<close>

type_synonym byte = "8 word"
type_synonym u32 = "32 word"

definition utf8 :: "codepoint \<Rightarrow> byte list" where
  "utf8 c =
     (if c < 0x80 then [word_of_nat c]
      else if c < 0x800 then [word_of_nat (0xC0 + c div 0x40), word_of_nat (0x80 + c mod 0x40)]
      else if c < 0x10000 then
        [word_of_nat (0xE0 + c div 0x1000), word_of_nat (0x80 + c div 0x40 mod 0x40),
         word_of_nat (0x80 + c mod 0x40)]
      else
        [word_of_nat (0xF0 + c div 0x40000), word_of_nat (0x80 + c div 0x1000 mod 0x40),
         word_of_nat (0x80 + c div 0x40 mod 0x40), word_of_nat (0x80 + c mod 0x40)])"

definition encode :: "pystr \<Rightarrow> byte list" where
  "encode s = concat (map utf8 s)"

definition Ch :: "u32 \<Rightarrow> u32 \<Rightarrow> u32 \<Rightarrow> u32" where
  "Ch x y z = (x AND y) XOR (NOT x AND z)"

definition Maj :: "u32 \<Rightarrow> u32 \<Rightarrow> u32 \<Rightarrow> u32" where
  "Maj x y z = (x AND y) XOR (x AND z) XOR (y AND z)"

definition Sigma0 :: "u32 \<Rightarrow> u32" where
  "Sigma0 x = word_rotr 2 x XOR word_rotr 13 x XOR word_rotr 22 x"

definition Sigma1 :: "u32 \<Rightarrow> u32" where
  "Sigma1 x = word_rotr 6 x XOR word_rotr 11 x XOR word_rotr 25 x"

definition sigma0 :: "u32 \<Rightarrow> u32" where
  "sigma0 x = word_rotr 7 x XOR word_rotr 18 x XOR drop_bit 3 x"

definition sigma1 :: "u32 \<Rightarrow> u32" where
  "sigma1 x = word_rotr 17 x XOR word_rotr 19 x XOR drop_bit 10 x"

text \<open>
  The round constants (the first 32 bits of the fractional parts of the cube roots of the
  first 64 primes, from 1116352408 = 0x428a2f98 on) and the initial hash value.
\<close>

definition K256 :: "u32 list" where
  "K256 =
    [1116352408, 1899447441, 3049323471, 3921009573, 961987163, 1508970993,
     2453635748, 2870763221, 3624381080, 310598401, 607225278, 1426881987,
     1925078388, 2162078206, 2614888103, 3248222580, 3835390401, 4022224774,
     264347078, 604807628, 770255983, 1249150122, 1555081692, 1996064986,
     2554220882, 2821834349, 2952996808, 3210313671, 3336571891, 3584528711,
     113926993, 338241895, 666307205, 773529912, 1294757372, 1396182291,
     1695183700, 1986661051, 2177026350, 2456956037, 2730485921, 2820302411,
     3259730800, 3345764771, 3516065817, 3600352804, 4094571909, 275423344,
     430227734, 506948616, 659060556, 883997877, 958139571, 1322822218,
     1537002063, 1747873779, 1955562222, 2024104815, 2227730452, 2361852424,
     2428436474, 2756734187, 3204031479, 3329325298]"

type_synonym hash_state = "u32 \<times> u32 \<times> u32 \<times> u32 \<times> u32 \<times> u32 \<times> u32 \<times> u32"

definition H0 :: hash_state where
  "H0 = (1779033703, 3144134277, 1013904242, 2773480762,
         1359893119, 2600822924, 528734635, 1541459225)"

text \<open>Padding: the byte 0x80, zeros up to 56 modulo 64, the bit length on 64 bits.\<close>

definition pad :: "byte list \<Rightarrow> byte list" where
  "pad m = m @ [0x80] @ replicate ((64 - (length m + 9) mod 64) mod 64) 0
             @ map (\<lambda>i. ucast (drop_bit (8 * i) (word_of_nat (8 * length m) :: 64 word)))
                 [7, 6, 5, 4, 3, 2, 1, 0]"

fun be32 :: "byte list \<Rightarrow> u32 list" where
  "be32 (a # b # c # d # bs) =
     (push_bit 24 (ucast a) OR push_bit 16 (ucast b) OR push_bit 8 (ucast c) OR ucast d) # be32 bs"
| "be32 bs = []"

text \<open>The message schedule: 48 more words after the 16 of the block.\<close>

fun schedule :: "nat \<Rightarrow> u32 list \<Rightarrow> u32 list" where
  "schedule 0 w = w"
| "schedule (Suc n) w =
     schedule n (w @ [sigma1 (w ! (length w - 2)) + w ! (length w - 7)
                      + sigma0 (w ! (length w - 15)) + w ! (length w - 16)])"

fun sha_round :: "hash_state \<Rightarrow> u32 \<times> u32 \<Rightarrow> hash_state" where
  "sha_round (a, b, c, d, e, f, g, h) (k, w) =
     (let T1 = h + Sigma1 e + Ch e f g + k + w;
          T2 = Sigma0 a + Maj a b c
      in (T1 + T2, a, b, c, d + T1, e, f, g))"

fun add_state :: "hash_state \<Rightarrow> hash_state \<Rightarrow> hash_state" where
  "add_state (a, b, c, d, e, f, g, h) (a', b', c', d', e', f', g', h') =
     (a + a', b + b', c + c', d + d', e + e', f + f', g + g', h + h')"

definition compress :: "hash_state \<Rightarrow> byte list \<Rightarrow> hash_state" where
  "compress hs block = add_state hs (foldl sha_round hs (zip K256 (schedule 48 (be32 block))))"

fun blocks :: "byte list \<Rightarrow> byte list list" where
  "blocks [] = []"
| "blocks (b # bs) = take 64 (b # bs) # blocks (drop 64 (b # bs))"

definition sha256 :: "byte list \<Rightarrow> hash_state" where
  "sha256 m = foldl compress H0 (blocks (pad m))"

definition hexchars :: pystr where
  "hexchars = lit ''0123456789abcdef''"

definition hex32 :: "u32 \<Rightarrow> pystr" where
  "hex32 w = map (\<lambda>i. hexchars ! unat (drop_bit (4 * i) w AND 0xF)) [7, 6, 5, 4, 3, 2, 1, 0]"

fun hexdigest :: "hash_state \<Rightarrow> pystr" where
  "hexdigest (a, b, c, d, e, f, g, h) = concat (map hex32 [a, b, c, d, e, f, g, h])"

text \<open>
  \<^verbatim>\<open>
  def hash_password(password):
      return hashlib.sha256(password.encode()).hexdigest()
  \<close>
\<close>

definition hash_password :: "pystr \<Rightarrow> pystr" where
  "hash_password password = hexdigest (sha256 (encode password))"

section \<open>The database\<close>

text \<open>
  \<^verbatim>\<open>
  users(id INTEGER PRIMARY KEY AUTOINCREMENT, username TEXT UNIQUE,
        email TEXT UNIQUE NOT NULL, password TEXT NOT NULL)
  expenses(id INTEGER PRIMARY KEY AUTOINCREMENT, user_id INTEGER NOT NULL, date TEXT,
           category TEXT, amount REAL NOT NULL, description TEXT,
           FOREIGN KEY(user_id) REFERENCES users(id))
  \<close>
  A table is the list of its rows in insertion order, with the counter that
  \<open>AUTOINCREMENT\<close> keeps in \<open>sqlite_sequence\<close>: a new row gets an id one larger than
  the counter and than every id of the table. Text is compared with the default \<open>BINARY\<close>
  collation, that is, for equality.

  The connection never switches \<open>PRAGMA foreign_keys\<close> on, so SQLite does not enforce the
  foreign key, and a column of \<open>INTEGER\<close> affinity keeps a text that is not a well-formed
  number as text. SQLite's conversion of a numeric text is the parameter \<open>numeric\<close>; a
  text without a decimal digit is never numeric.

  The amount is a float64 (\<open>st.number_input\<close> gives a Python float, the column is
  \<open>REAL\<close>). The type \<open>float64\<close> stands for these values; nothing is assumed about
  their arithmetic, which rounds, depends on the order and overflows. The date column
  holds \<open>str(date)\<close>, the ISO form of a \<open>datetime.date\<close>, which
  \<open>pd.to_datetime\<close> reads back: the row keeps the date itself.
\<close>

typedecl float64

datatype sql_value = SqlInteger int | SqlReal float64 | SqlText pystr

record date =
  year :: nat
  month :: nat
  day :: nat

record user_row =
  u_id :: int
  u_username :: pystr
  u_email :: pystr
  u_password :: pystr

record expense_row =
  e_id :: int
  e_user_id :: sql_value
  e_date :: date
  e_category :: pystr
  e_amount :: float64
  e_description :: pystr

record database =
  users :: "user_row list"
  users_seq :: int
  expenses :: "expense_row list"
  expenses_seq :: int

definition next_rowid :: "int \<Rightarrow> int list \<Rightarrow> int" where
  "next_rowid seq ids = fold max ids seq + 1"

definition ascii_digit :: charclass where
  "ascii_digit = range_cls CHR ''0'' CHR ''9''"

definition integer_affinity :: "(pystr \<Rightarrow> sql_value option) \<Rightarrow> pystr \<Rightarrow> sql_value" where
  "integer_affinity numeric t =
     (if list_ex ascii_digit t
      then (case numeric t of Some v \<Rightarrow> v | None \<Rightarrow> SqlText t)
      else SqlText t)"

section \<open>Auth functions: login, register, reset\<close>

text \<open>The values these functions return: a string or a boolean, tested for truth.\<close>

datatype py_value = Str pystr | Bool bool

fun truthy :: "py_value \<Rightarrow> bool" where
  "truthy (Str s) = (s \<noteq> [])"
| "truthy (Bool b) = b"

text \<open>
  \<^verbatim>\<open>
  def login_user(email, password):
      c.execute("SELECT * FROM users WHERE email=? AND password=?",
                (email, hash_password(password)))
      return c.fetchone()
  \<close>
  \<open>fetchone\<close> gives the first row of the result, or \<open>None\<close>.
\<close>

definition login_user :: "database \<Rightarrow> pystr \<Rightarrow> pystr \<Rightarrow> user_row option" where
  "login_user db email_arg password =
     find (\<lambda>r. u_email r = email_arg \<and> u_password r = hash_password password) (users db)"

text \<open>
  \<^verbatim>\<open>
  def register_user(username, email, password):
      if not validate_password(password):
          return "invalid"
      try:
          c.execute("INSERT INTO users (username, email, password) VALUES (?, ?, ?)",
                    (username, email, hash_password(password)))
          conn.commit()
          return True
      except sqlite3.IntegrityError:
          return False
  \<close>
  The insertion violates a constraint exactly when a row has the same username or the same
  email; the failed statement changes nothing.
\<close>

definition register_user ::
  "charclass \<Rightarrow> database \<Rightarrow> pystr \<Rightarrow> pystr \<Rightarrow> pystr \<Rightarrow> py_value \<times> database" where
  "register_user nd db username_arg email_arg password =
     (if \<not> validate_password nd password then (Str (lit ''invalid''), db)
      else if list_ex (\<lambda>r. u_username r = username_arg \<or> u_email r = email_arg) (users db)
      then (Bool False, db)
      else (Bool True,
            db\<lparr>users := users db @
                  [\<lparr>u_id = next_rowid (users_seq db) (map u_id (users db)),
                    u_username = username_arg, u_email = email_arg,
                    u_password = hash_password password\<rparr>],
               users_seq := next_rowid (users_seq db) (map u_id (users db))\<rparr>))"

text \<open>
  \<^verbatim>\<open>
  def reset_password(email, new_password):
      if not validate_password(new_password):
          return "invalid"
      c.execute("UPDATE users SET password=? WHERE email=?",
                (hash_password(new_password), email))
      conn.commit()
      return True
  \<close>
\<close>

definition reset_password ::
  "charclass \<Rightarrow> database \<Rightarrow> pystr \<Rightarrow> pystr \<Rightarrow> py_value \<times> database" where
  "reset_password nd db email_arg new_password =
     (if \<not> validate_password nd new_password then (Str (lit ''invalid''), db)
      else (Bool True,
            db\<lparr>users :=
                 map (\<lambda>r. if u_email r = email_arg
                           then r\<lparr>u_password := hash_password new_password\<rparr> else r)
                   (users db)\<rparr>))"

section \<open>Session state (\<open>st.session_state\<close>) and the logged-out page\<close>

text \<open>
  \<open>app.py\<close>, lines 39 to 46: the session holds \<open>logged_in\<close>, \<open>username\<close>, \<open>email\<close> and
  \<open>page\<close>; \<open>username\<close> and \<open>email\<close> start as \<open>None\<close>, and \<open>page\<close> as the label of the
  home page, which begins with the house emoji (code point 127968).
\<close>

record session_state =
  logged_in :: bool
  username :: "pystr option"
  email :: "pystr option"
  page :: pystr

definition session_init :: session_state where
  "session_init =
     \<lparr>logged_in = False, username = None, email = None, page = 127968 # lit '' Home''\<rparr>"

text \<open>What a button press shows to the user.\<close>

datatype notice =
    WelcomeBack
  | InvalidUsernameOrPassword
  | PleaseFillAllFields
  | PasswordTooWeak
  | RegistrationSuccessful
  | UsernameOrEmailExists
  | PasswordResetSuccessful
  | EmailNotFound

text \<open>
  The Login button, lines 107 to 116: \<open>user[1]\<close> is the username and \<open>user[2]\<close> the email
  of the row.
\<close>

definition login_click ::
  "database \<Rightarrow> session_state \<Rightarrow> pystr \<Rightarrow> pystr \<Rightarrow> notice \<times> session_state" where
  "login_click db ss email_arg password =
     (case login_user db email_arg password of
        Some user \<Rightarrow>
          (WelcomeBack,
           ss\<lparr>logged_in := True, username := Some (u_username user),
              email := Some (u_email user)\<rparr>)
      | None \<Rightarrow> (InvalidUsernameOrPassword, ss))"

text \<open>The Register button, lines 122 to 131.\<close>

definition register_click ::
  "charclass \<Rightarrow> database \<Rightarrow> pystr \<Rightarrow> pystr \<Rightarrow> pystr \<Rightarrow> notice \<times> database" where
  "register_click nd db username_arg email_arg password =
     (if username_arg = [] \<or> email_arg = [] \<or> password = [] then (PleaseFillAllFields, db)
      else if \<not> validate_password nd password then (PasswordTooWeak, db)
      else (case register_user nd db username_arg email_arg password of
              (r, db') \<Rightarrow> (if truthy r then RegistrationSuccessful else UsernameOrEmailExists, db')))"

text \<open>
  The Reset Password button, lines 137 to 146:
  \<^verbatim>\<open>
    if reset_password(email, new_password):
        st.success("Password reset successful! You can login now.")
    else:
        st.error("Email not found.")
  \<close>
\<close>

definition reset_click ::
  "charclass \<Rightarrow> database \<Rightarrow> pystr \<Rightarrow> pystr \<Rightarrow> notice \<times> database" where
  "reset_click nd db email_arg new_password =
     (if email_arg = [] \<or> new_password = [] then (PleaseFillAllFields, db)
      else if \<not> validate_password nd new_password then (PasswordTooWeak, db)
      else (case reset_password nd db email_arg new_password of
              (r, db') \<Rightarrow> (if truthy r then PasswordResetSuccessful else EmailNotFound, db')))"

text \<open>
  The Logout button, lines 153 to 156:
  \<^verbatim>\<open>
    if st.sidebar.button("Logout"):
        st.session_state.logged_in = False
        st.session_state.username = None
        st.rerun()
  \<close>
\<close>

definition logout_click :: "session_state \<Rightarrow> session_state" where
  "logout_click ss = ss\<lparr>logged_in := False, username := None\<rparr>"

section \<open>Advice gateway (\<open>config.py\<close>)\<close>

text \<open>
  An exception is its class, as far as the code tells classes apart, and what \<open>str(e)\<close>
  does. \<open>except Exception\<close> catches the classes that derive from \<open>Exception\<close> and not
  those that derive from \<open>BaseException\<close> only (\<open>KeyboardInterrupt\<close>, \<open>SystemExit\<close>);
  \<open>getattr\<close> with a default catches \<open>AttributeError\<close>, which derives from \<open>Exception\<close>.
  \<open>str(e)\<close> runs the \<open>__str__\<close> of the class: it returns a text or raises in its turn.
  A call returns \<open>Inr\<close> of its value or raises, \<open>Inl\<close> of the exception.
\<close>

datatype exc_class = AttributeErrorClass | ExceptionClass | BaseExceptionClass

datatype py_exception = Exc (exc_class: exc_class) (exc_str: "py_exception + pystr")

type_synonym 'a outcome = "py_exception + 'a"

definition derives_Exception :: "py_exception \<Rightarrow> bool" where
  "derives_Exception e = (exc_class e \<noteq> BaseExceptionClass)"

definition IndexError :: py_exception where
  "IndexError = Exc ExceptionClass (Inr (lit ''list index out of range''))"

definition IntegrityError :: py_exception where
  "IntegrityError =
     Exc ExceptionClass (Inr (lit ''NOT NULL constraint failed: expenses.user_id''))"

text \<open>
  The external service is a parameter: \<open>gen prompt\<close> is what
  \<open>get_model().generate_content(prompt)\<close> does, a response or an exception. Of a response
  the code calls \<open>str(resp)\<close>, which returns a text or raises, and reads the attribute
  \<open>text\<close>: it has a value, or it is absent, or it is a property that raises.
\<close>

datatype text_attribute = HasText pystr | NoText | TextRaises py_exception

record response =
  resp_text :: text_attribute
  resp_str :: "pystr outcome"

type_synonym generator = "pystr \<Rightarrow> response outcome"

text \<open>
  \<^verbatim>\<open>
  def get_gemini_response(prompt: str,  max_output_tokens: int = 400):
      try:
          model = get_model()
          resp = model.generate_content(prompt)
          return getattr(resp, "text", str(resp))
      except Exception as e:
          return f"Error: {e}"
  \<close>
  No caller passes \<open>max_output_tokens\<close> and the body does not read it.

  The argument \<open>str(resp)\<close> is evaluated before \<open>getattr\<close> is called. \<open>getattr\<close> returns
  the default when the attribute is absent and when reading it raises \<open>AttributeError\<close>;
  any other exception of the property goes on.
\<close>

definition getattr_text :: "response \<Rightarrow> pystr \<Rightarrow> pystr outcome" where
  "getattr_text resp dflt =
     (case resp_text resp of
        HasText t \<Rightarrow> Inr t
      | NoText \<Rightarrow> Inr dflt
      | TextRaises e \<Rightarrow> (if exc_class e = AttributeErrorClass then Inr dflt else Inl e))"

definition try_body :: "generator \<Rightarrow> pystr \<Rightarrow> pystr outcome" where
  "try_body gen prompt =
     (case gen prompt of
        Inl e \<Rightarrow> Inl e
      | Inr resp \<Rightarrow>
          (case resp_str resp of
             Inl e \<Rightarrow> Inl e
           | Inr s \<Rightarrow> getattr_text resp s))"

text \<open>
  The handler: the f-string calls \<open>str(e)\<close>, and what that call raises leaves the
  function.
\<close>

definition except_Exception :: "py_exception \<Rightarrow> pystr outcome" where
  "except_Exception e =
     (if derives_Exception e
      then (case exc_str e of Inr msg \<Rightarrow> Inr (lit ''Error: '' @ msg) | Inl e' \<Rightarrow> Inl e')
      else Inl e)"

definition get_gemini_response :: "generator \<Rightarrow> pystr \<Rightarrow> pystr outcome" where
  "get_gemini_response gen prompt =
     (case try_body gen prompt of
        Inr t \<Rightarrow> Inr t
      | Inl e \<Rightarrow> except_Exception e)"


section \<open>\<open>str.strip()\<close> and \<open>str.split()\<close>\<close>

text \<open>The characters for which \<open>str.isspace\<close> holds.\<close>

definition isspace :: charclass where
  "isspace c =
     (c \<in> set [9, 10, 11, 12, 13, 28, 29, 30, 31, 32, 133, 160, 5760, 8232, 8233, 8239,
               8287, 12288]
      \<or> (8192 \<le> c \<and> c \<le> 8202))"

definition strip :: "pystr \<Rightarrow> pystr" where
  "strip s = rev (dropWhile isspace (rev (dropWhile isspace s)))"

text \<open>
  \<open>split()\<close> without a separator: runs of whitespace separate the words, and there is no
  empty word. \<open>cur\<close> is the word being read, reversed.
\<close>

fun split_from :: "pystr \<Rightarrow> pystr \<Rightarrow> pystr list" where
  "split_from cur [] = (if cur = [] then [] else [rev cur])"
| "split_from cur (c # cs) =
     (if isspace c then (if cur = [] then split_from [] cs else rev cur # split_from [] cs)
      else split_from (c # cur) cs)"

definition split :: "pystr \<Rightarrow> pystr list" where
  "split s = split_from [] s"

text \<open>\<open>xs[0]\<close> raises \<open>IndexError\<close> on the empty list.\<close>

definition item0 :: "'a list \<Rightarrow> 'a outcome" where
  "item0 xs = (case xs of [] \<Rightarrow> Inl IndexError | x # _ \<Rightarrow> Inr x)"

section \<open>Add Expense\<close>

text \<open>
  Lines 188 to 199:
  \<^verbatim>\<open>
    prompt = f"Categorize this expense into one word (Food, Transport, Bills, Entertainment, Other): {description}"
    category = get_gemini_response(prompt).strip().split()[0]
    c.execute(
        "INSERT INTO expenses (user_id, date, category, amount, description) VALUES (?, ?, ?, ?, ?)",
        (st.session_state.username, str(date), category, amount, description))
    conn.commit()
  \<close>
\<close>

definition categorize_prompt :: "pystr \<Rightarrow> pystr" where
  "categorize_prompt description =
     lit ''Categorize this expense into one word (Food, Transport, Bills, Entertainment, Other): ''
       @ description"

definition category_of :: "pystr \<Rightarrow> pystr outcome" where
  "category_of resp = item0 (split (strip resp))"

definition categorize :: "generator \<Rightarrow> pystr \<Rightarrow> pystr outcome" where
  "categorize gen description =
     (case get_gemini_response gen (categorize_prompt description) of
        Inl e \<Rightarrow> Inl e
      | Inr resp \<Rightarrow> category_of resp)"

text \<open>
  The value bound to \<open>user_id\<close> is \<open>st.session_state.username\<close>. When it is \<open>None\<close> the
  \<open>NOT NULL\<close> constraint fails; the page is shown to a logged-in session only.
\<close>

definition insert_expense ::
  "(pystr \<Rightarrow> sql_value option) \<Rightarrow> database \<Rightarrow> pystr option \<Rightarrow> date \<Rightarrow> pystr \<Rightarrow> float64
     \<Rightarrow> pystr \<Rightarrow> database outcome" where
  "insert_expense numeric db user d category amount description =
     (case user of
        None \<Rightarrow> Inl IntegrityError
      | Some u \<Rightarrow>
          Inr (db\<lparr>expenses := expenses db @
                    [\<lparr>e_id = next_rowid (expenses_seq db) (map e_id (expenses db)),
                      e_user_id = integer_affinity numeric u,
                      e_date = d, e_category = category, e_amount = amount,
                      e_description = description\<rparr>],
                  expenses_seq := next_rowid (expenses_seq db) (map e_id (expenses db))\<rparr>))"

definition add_expense ::
  "generator \<Rightarrow> (pystr \<Rightarrow> sql_value option) \<Rightarrow> database \<Rightarrow> session_state \<Rightarrow> date \<Rightarrow> float64
     \<Rightarrow> pystr \<Rightarrow> database outcome" where
  "add_expense gen numeric db ss d amount description =
     (case categorize gen description of
        Inl e \<Rightarrow> Inl e
      | Inr category \<Rightarrow> insert_expense numeric db (username ss) d category amount description)"

section \<open>Dashboard\<close>

text \<open>
  \<open>df.groupby(key)['amount']\<close>: the amounts of the frame, split by key. Each key that
  occurs has one group, which holds the amounts of its rows in the order of the rows, and
  the keys are in ascending order (\<open>sort=True\<close> is the default of \<open>groupby\<close>). The groups
  are built row by row.
\<close>

fun add_to_group ::
  "'k::linorder \<Rightarrow> float64 \<Rightarrow> ('k \<times> float64 list) list \<Rightarrow> ('k \<times> float64 list) list" where
  "add_to_group k v [] = [(k, [v])]"
| "add_to_group k v ((k', vs) # groups) =
     (if k = k' then (k', vs @ [v]) # groups
      else if k < k' then (k, [v]) # (k', vs) # groups
      else (k', vs) # add_to_group k v groups)"

definition groupby ::
  "(expense_row \<Rightarrow> 'k::linorder) \<Rightarrow> expense_row list \<Rightarrow> ('k \<times> float64 list) list" where
  "groupby key df = foldl (\<lambda>groups e. add_to_group (key e) (e_amount e) groups) [] df"

text \<open>
  \<open>.sum().reset_index()\<close>: one row for each group, with the float64 sum of its amounts.
  The sum that pandas computes from the amounts of a group, taken in the order of the rows,
  is the parameter \<open>gsum\<close>, and the sum of a whole column (\<open>df['amount'].sum()\<close>) the
  parameter \<open>ssum\<close>. They add float64 values, so no law of real addition is assumed of
  them.
\<close>

definition groupby_sum ::
  "(float64 list \<Rightarrow> float64) \<Rightarrow> (expense_row \<Rightarrow> 'k::linorder) \<Rightarrow> expense_row list
     \<Rightarrow> ('k \<times> float64) list" where
  "groupby_sum gsum key df = map (\<lambda>(k, vs). (k, gsum vs)) (groupby key df)"

text \<open>The amounts of the rows that have the key \<open>k\<close>, in the order of the rows.\<close>

definition group_amounts :: "(expense_row \<Rightarrow> 'k) \<Rightarrow> expense_row list \<Rightarrow> 'k \<Rightarrow> float64 list" where
  "group_amounts key df k = map e_amount (filter (\<lambda>e. key e = k) df)"

text \<open>
  \<open>dt.to_period("M")\<close>: the year and the month of a date. Periods are ordered by time:
  first the year, then the month. \<open>astype(str)\<close> writes a period as \<open>YYYY-MM\<close>.
\<close>

type_synonym period = "nat \<times> nat"

definition to_period_M :: "date \<Rightarrow> period" where
  "to_period_M d = (year d, month d)"

definition digit :: "nat \<Rightarrow> codepoint" where
  "digit n = 48 + n mod 10"

definition period_str :: "period \<Rightarrow> pystr" where
  "period_str p =
     (case p of (y, m) \<Rightarrow>
        [digit (y div 1000), digit (y div 100), digit (y div 10), digit y, 45,
         digit (m div 10), digit m])"

text \<open>
  Lines 204 to 233:
  \<^verbatim>\<open>
    df = pd.read_sql("SELECT * FROM expenses WHERE user_id=?", conn,
                     params=(st.session_state.username,))
    if df.empty:
        st.warning("No expenses added yet.")
    else:
        st.dataframe(df, use_container_width=True)
        category_summary = df.groupby("category")["amount"].sum().reset_index()
        df['date'] = pd.to_datetime(df['date'])
        monthly = df.groupby(df['date'].dt.to_period("M"))['amount'].sum().reset_index()
        monthly['date'] = monthly['date'].astype(str)
        total_expense = df['amount'].sum()
  \<close>
\<close>

definition category_summary :: "(float64 list \<Rightarrow> float64) \<Rightarrow> expense_row list \<Rightarrow> (pystr \<times> float64) list" where
  "category_summary gsum df = groupby_sum gsum e_category df"

definition monthly_groups :: "(float64 list \<Rightarrow> float64) \<Rightarrow> expense_row list \<Rightarrow> (period \<times> float64) list" where
  "monthly_groups gsum df = groupby_sum gsum (\<lambda>e. to_period_M (e_date e)) df"

definition monthly :: "(float64 list \<Rightarrow> float64) \<Rightarrow> expense_row list \<Rightarrow> (pystr \<times> float64) list" where
  "monthly gsum df = map (\<lambda>(p, v). (period_str p, v)) (monthly_groups gsum df)"

definition total_expense :: "(float64 list \<Rightarrow> float64) \<Rightarrow> expense_row list \<Rightarrow> float64" where
  "total_expense ssum df = ssum (map e_amount df)"

datatype dashboard =
    NoExpensesYet
  | Charts "expense_row list" "(pystr \<times> float64) list" "(pystr \<times> float64) list" float64

definition report ::
  "(float64 list \<Rightarrow> float64) \<Rightarrow> (float64 list \<Rightarrow> float64) \<Rightarrow> expense_row list \<Rightarrow> dashboard" where
  "report gsum ssum df =
     (if df = [] then NoExpensesYet
      else Charts df (category_summary gsum df) (monthly gsum df) (total_expense ssum df))"

definition select_expenses ::
  "(pystr \<Rightarrow> sql_value option) \<Rightarrow> database \<Rightarrow> pystr option \<Rightarrow> expense_row list" where
  "select_expenses numeric db user =
     (case user of
        None \<Rightarrow> []
      | Some u \<Rightarrow> filter (\<lambda>e. e_user_id e = integer_affinity numeric u) (expenses db))"

definition dashboard_page ::
  "(float64 list \<Rightarrow> float64) \<Rightarrow> (float64 list \<Rightarrow> float64) \<Rightarrow> (pystr \<Rightarrow> sql_value option) \<Rightarrow> database
     \<Rightarrow> session_state \<Rightarrow> dashboard" where
  "dashboard_page gsum ssum numeric db ss =
     report gsum ssum (select_expenses numeric db (username ss))"

text \<open>
  The monthly totals in the words of the specification: the months that occur, in
  chronological order, each with the sum of the amounts of its expenses.
\<close>

definition monthly_totals_spec ::
  "(float64 list \<Rightarrow> float64) \<Rightarrow> expense_row list \<Rightarrow> (period \<times> float64) list" where
  "monthly_totals_spec gsum df =
     map (\<lambda>p. (p, gsum (map e_amount (filter (\<lambda>e. to_period_M (e_date e) = p) df))))
       (sort (remdups (map (\<lambda>e. to_period_M (e_date e)) df)))"

section \<open>The scenario of the specification\<close>

text \<open>
  alice registers with alice@x.com and \<open>Passw0rd!\<close> in the empty database, logs in, and
  adds an Uber ride on 2024-01-05 that the service labels Transport.
\<close>

definition db_empty :: database where
  "db_empty = \<lparr>users = [], users_seq = 0, expenses = [], expenses_seq = 0\<rparr>"

definition alice_row :: user_row where
  "alice_row = \<lparr>u_id = 1, u_username = lit ''alice'', u_email = lit ''alice@x.com'',
                 u_password = hash_password (lit ''Passw0rd!'')\<rparr>"

definition db_alice :: database where
  "db_alice = \<lparr>users = [alice_row], users_seq = 1, expenses = [], expenses_seq = 0\<rparr>"

definition alice_session :: session_state where
  "alice_session = \<lparr>logged_in = True, username = Some (lit ''alice''),
                     email = Some (lit ''alice@x.com''), page = 127968 # lit '' Home''\<rparr>"

text \<open>Stubs of the external service: one that answers a text, one that raises.\<close>

definition answers :: "pystr \<Rightarrow> generator" where
  "answers t prompt = Inr \<lparr>resp_text = HasText t, resp_str = Inr t\<rparr>"









text \<open>
  The expenses of alice: the Uber ride, a grocery bill of December 2023 and a second ride
  of January 2024, each with its amount.
\<close>

definition uber_ride :: "float64 \<Rightarrow> expense_row" where
  "uber_ride amount =
     \<lparr>e_id = 1, e_user_id = SqlText (lit ''alice''),
      e_date = \<lparr>year = 2024, month = 1, day = 5\<rparr>, e_category = lit ''Transport'',
      e_amount = amount, e_description = lit ''Uber ride''\<rparr>"

definition groceries :: "float64 \<Rightarrow> expense_row" where
  "groceries amount =
     \<lparr>e_id = 2, e_user_id = SqlText (lit ''alice''),
      e_date = \<lparr>year = 2023, month = 12, day = 31\<rparr>, e_category = lit ''Food'',
      e_amount = amount, e_description = lit ''Grocery shopping''\<rparr>"

definition metro_ride :: "float64 \<Rightarrow> expense_row" where
  "metro_ride amount =
     \<lparr>e_id = 3, e_user_id = SqlText (lit ''alice''),
      e_date = \<lparr>year = 2024, month = 1, day = 9\<rparr>, e_category = lit ''Transport'',
      e_amount = amount, e_description = lit ''Metro''\<rparr>"

section \<open>The matcher\<close>

lemma star_iff:
  "star P k i xs \<longleftrightarrow>
     (\<exists>ys zs. xs = ys @ zs \<and> (\<forall>c\<in>set ys. P c) \<and> k (i + length ys) zs)"
proof (induction xs arbitrary: i)
  case Nil
  then show ?case by simp
next
  case (Cons c cs)
  show ?case
  proof
    assume "star P k i (c # cs)"
    then consider "P c" "star P k (Suc i) cs" | "k i (c # cs)" by auto
    then show "\<exists>ys zs. c # cs = ys @ zs \<and> (\<forall>c\<in>set ys. P c) \<and> k (i + length ys) zs"
    proof cases
      case 1
      then obtain ys zs where "cs = ys @ zs" "\<forall>c\<in>set ys. P c" "k (Suc i + length ys) zs"
        using Cons.IH by blast
      with 1 have "c # cs = (c # ys) @ zs \<and> (\<forall>d\<in>set (c # ys). P d) \<and> k (i + length (c # ys)) zs"
        by simp
      then show ?thesis by blast
    next
      case 2
      then have "c # cs = [] @ (c # cs) \<and> (\<forall>d\<in>set []. P d) \<and> k (i + length ([]::pystr)) (c # cs)"
        by simp
      then show ?thesis by blast
    qed
  next
    assume "\<exists>ys zs. c # cs = ys @ zs \<and> (\<forall>c\<in>set ys. P c) \<and> k (i + length ys) zs"
    then obtain ys zs where h: "c # cs = ys @ zs" "\<forall>c\<in>set ys. P c" "k (i + length ys) zs"
      by blast
    show "star P k i (c # cs)"
    proof (cases ys)
      case Nil
      with h have "k i (c # cs)" by simp
      then show ?thesis by simp
    next
      case (Cons y ys')
      with h have "cs = ys' @ zs" "\<forall>c\<in>set ys'. P c" "k (Suc i + length ys') zs" "P c"
        by auto
      then show ?thesis using Cons.IH by auto
    qed
  qed
qed

lemma rep_iff:
  "rep n P k i xs \<longleftrightarrow>
     (\<exists>ys zs. xs = ys @ zs \<and> n \<le> length ys \<and> (\<forall>c\<in>set ys. P c) \<and> k (i + length ys) zs)"
proof (induction n P k i xs rule: rep.induct)
  case (1 P k i xs)
  then show ?case by (simp add: star_iff)
next
  case (2 n P k i)
  then show ?case by simp
next
  case (3 n P k i c cs)
  show ?case
  proof
    assume "rep (Suc n) P k i (c # cs)"
    then have "P c" "rep n P k (Suc i) cs" by auto
    then obtain ys zs where "cs = ys @ zs" "n \<le> length ys" "\<forall>c\<in>set ys. P c"
      "k (Suc i + length ys) zs"
      using 3 by blast
    with \<open>P c\<close> have "c # cs = (c # ys) @ zs \<and> Suc n \<le> length (c # ys)
      \<and> (\<forall>d\<in>set (c # ys). P d) \<and> k (i + length (c # ys)) zs"
      by simp
    then show "\<exists>ys zs. c # cs = ys @ zs \<and> Suc n \<le> length ys \<and> (\<forall>c\<in>set ys. P c)
      \<and> k (i + length ys) zs"
      by blast
  next
    assume "\<exists>ys zs. c # cs = ys @ zs \<and> Suc n \<le> length ys \<and> (\<forall>c\<in>set ys. P c)
      \<and> k (i + length ys) zs"
    then obtain ys zs where h: "c # cs = ys @ zs" "Suc n \<le> length ys" "\<forall>c\<in>set ys. P c"
      "k (i + length ys) zs"
      by blast
    then obtain y ys' where ys: "ys = y # ys'" by (cases ys) auto
    with h have "cs = ys' @ zs" "n \<le> length ys'" "\<forall>c\<in>set ys'. P c"
      "k (Suc i + length ys') zs" "P c"
      by auto
    then show "rep (Suc n) P k i (c # cs)" using 3 by auto
  qed
qed

lemma run_Cls_accept:
  "run (Cls P) accept j zs \<longleftrightarrow> (\<exists>c cs. zs = c # cs \<and> P c)"
  by (cases zs) (simp_all add: accept_def)

lemma dot_all_iff: "(\<forall>c\<in>set ys. dot c) \<longleftrightarrow> 10 \<notin> set ys"
  by (auto simp: dot_def)

lemma lookahead_iff:
  "run (Look (Seq (Rep 0 dot) (Cls P))) k i xs \<longleftrightarrow>
     (\<exists>ys c zs. xs = ys @ c # zs \<and> 10 \<notin> set ys \<and> P c) \<and> k i xs"
proof -
  have "rep 0 dot (run (Cls P) accept) i xs \<longleftrightarrow>
      (\<exists>ys c zs. xs = ys @ c # zs \<and> 10 \<notin> set ys \<and> P c)"
    unfolding rep_iff run_Cls_accept dot_all_iff by auto
  then show ?thesis by simp
qed

lemma lookahead_no_newline:
  assumes "(10::nat) \<notin> set xs"
  shows "(\<exists>ys c zs. xs = ys @ c # zs \<and> 10 \<notin> set ys \<and> P c) \<longleftrightarrow> (\<exists>c\<in>set xs. P c)"
proof
  assume "\<exists>ys c zs. xs = ys @ c # zs \<and> 10 \<notin> set ys \<and> P c"
  then obtain ys c zs where "xs = ys @ c # zs" "P c" by blast
  then have "c \<in> set xs" "P c" by simp_all
  then show "\<exists>c\<in>set xs. P c" by blast
next
  assume "\<exists>c\<in>set xs. P c"
  then obtain c where "c \<in> set xs" "P c" by blast
  then obtain ys zs where "xs = ys @ c # zs" by (auto simp: in_set_conv_decomp)
  with assms \<open>P c\<close> have "xs = ys @ c # zs \<and> 10 \<notin> set ys \<and> P c" by auto
  then show "\<exists>ys c zs. xs = ys @ c # zs \<and> 10 \<notin> set ys \<and> P c" by blast
qed

lemma lookahead_last_newline:
  assumes "(10::nat) \<notin> set xs" "\<not> P 10"
  shows "(\<exists>ys c zs. xs @ [10] = ys @ c # zs \<and> 10 \<notin> set ys \<and> P c) \<longleftrightarrow> (\<exists>c\<in>set xs. P c)"
proof
  assume "\<exists>ys c zs. xs @ [10] = ys @ c # zs \<and> 10 \<notin> set ys \<and> P c"
  then obtain ys c zs where h: "xs @ [10] = ys @ c # zs" "P c" by blast
  then have "c \<in> set (xs @ [10])" by (metis in_set_conv_decomp)
  with h(2) assms show "\<exists>c\<in>set xs. P c" by auto
next
  assume "\<exists>c\<in>set xs. P c"
  then obtain c where "c \<in> set xs" "P c" by blast
  then obtain ys zs where "xs = ys @ c # zs" by (auto simp: in_set_conv_decomp)
  with assms \<open>P c\<close> have "xs @ [10] = ys @ c # (zs @ [10]) \<and> 10 \<notin> set ys \<and> P c" by auto
  then show "\<exists>ys c zs. xs @ [10] = ys @ c # zs \<and> 10 \<notin> set ys \<and> P c" by blast
qed

section \<open>The password policy\<close>

lemmas cls_defs = range_cls_def set_cls_def category_digit_def union_cls_def
  lower_def upper_def special_def allowed_def

lemma password_policy_iff:
  "password_policy nd p \<longleftrightarrow>
     8 \<le> length p \<and> (\<exists>c\<in>set p. lower c) \<and> (\<exists>c\<in>set p. upper c) \<and>
     (\<exists>c\<in>set p. category_digit nd c) \<and> (\<exists>c\<in>set p. special c) \<and>
     (\<forall>c\<in>set p. allowed nd c)"
  by (simp add: password_policy_def list_ex_iff list_all_iff)

lemma newline_not_in_class:
  "\<not> lower 10" "\<not> upper 10" "\<not> category_digit nd 10" "\<not> special 10" "\<not> allowed nd 10"
  by (simp_all add: cls_defs)

lemma allowed_no_newline: "\<forall>c\<in>set ys. allowed nd c \<Longrightarrow> 10 \<notin> set ys"
  using newline_not_in_class(5) by blast

lemma validate_password_unfold:
  "validate_password nd p \<longleftrightarrow>
     (\<exists>ys c zs. p = ys @ c # zs \<and> 10 \<notin> set ys \<and> lower c) \<and>
     (\<exists>ys c zs. p = ys @ c # zs \<and> 10 \<notin> set ys \<and> upper c) \<and>
     (\<exists>ys c zs. p = ys @ c # zs \<and> 10 \<notin> set ys \<and> category_digit nd c) \<and>
     (\<exists>ys c zs. p = ys @ c # zs \<and> 10 \<notin> set ys \<and> special c) \<and>
     (\<exists>ys zs. p = ys @ zs \<and> 8 \<le> length ys \<and> (\<forall>c\<in>set ys. allowed nd c) \<and>
        (zs = [] \<or> zs = [10]))"
  unfolding validate_password_def re_match_def pattern_def run.simps(6) lookahead_iff
  by (simp add: rep_iff accept_def)

lemma validate_password_iff:
  "validate_password nd p \<longleftrightarrow> password_policy nd p \<or> (\<exists>q. p = q @ [10] \<and> password_policy nd q)"
proof
  assume "validate_password nd p"
  then obtain ys zs where h: "p = ys @ zs" "8 \<le> length ys" "\<forall>c\<in>set ys. allowed nd c"
      "zs = [] \<or> zs = [10]"
    and l: "\<exists>ys c zs. p = ys @ c # zs \<and> 10 \<notin> set ys \<and> lower c"
      "\<exists>ys c zs. p = ys @ c # zs \<and> 10 \<notin> set ys \<and> upper c"
      "\<exists>ys c zs. p = ys @ c # zs \<and> 10 \<notin> set ys \<and> category_digit nd c"
      "\<exists>ys c zs. p = ys @ c # zs \<and> 10 \<notin> set ys \<and> special c"
    unfolding validate_password_unfold by blast
  have nl: "10 \<notin> set ys" using h(3) by (rule allowed_no_newline)
  from h(4) show "password_policy nd p \<or> (\<exists>q. p = q @ [10] \<and> password_policy nd q)"
  proof
    assume "zs = []"
    with h have p: "p = ys" by simp
    have "password_policy nd ys"
      using l h(2,3) unfolding p lookahead_no_newline [OF nl] password_policy_iff by blast
    with p show ?thesis by simp
  next
    assume "zs = [10]"
    with h have p: "p = ys @ [10]" by simp
    have "\<exists>c\<in>set ys. lower c"
      using l(1) unfolding p
      by (rule lookahead_last_newline [of ys "lower", OF nl newline_not_in_class(1), THEN iffD1])
    moreover have "\<exists>c\<in>set ys. upper c"
      using l(2) unfolding p
      by (rule lookahead_last_newline [of ys "upper", OF nl newline_not_in_class(2), THEN iffD1])
    moreover have "\<exists>c\<in>set ys. category_digit nd c"
      using l(3) unfolding p
      by (rule lookahead_last_newline [of ys "category_digit nd", OF nl newline_not_in_class(3), THEN iffD1])
    moreover have "\<exists>c\<in>set ys. special c"
      using l(4) unfolding p
      by (rule lookahead_last_newline [of ys "special", OF nl newline_not_in_class(4), THEN iffD1])
    ultimately have "password_policy nd ys"
      using h(2,3) unfolding password_policy_iff by blast
    with p show ?thesis by blast
  qed
next
  assume "password_policy nd p \<or> (\<exists>q. p = q @ [10] \<and> password_policy nd q)"
  then show "validate_password nd p"
  proof
    assume pol: "password_policy nd p"
    then have nl: "10 \<notin> set p" by (intro allowed_no_newline [of p nd]) (simp add: password_policy_iff)
    have "p = p @ [] \<and> 8 \<le> length p \<and> (\<forall>c\<in>set p. allowed nd c) \<and> ([] = [] \<or> [] = [10::nat])"
      using pol by (simp add: password_policy_iff)
    then have "\<exists>ys zs. p = ys @ zs \<and> 8 \<le> length ys \<and> (\<forall>c\<in>set ys. allowed nd c) \<and>
        (zs = [] \<or> zs = [10])"
      by blast
    then show ?thesis
      using pol unfolding validate_password_unfold lookahead_no_newline [OF nl] password_policy_iff
      by blast
  next
    assume "\<exists>q. p = q @ [10] \<and> password_policy nd q"
    then obtain q where p: "p = q @ [10]" and pol: "password_policy nd q" by blast
    then have nl: "10 \<notin> set q" by (intro allowed_no_newline [of q nd]) (simp add: password_policy_iff)
    have "q @ [10] = q @ [10] \<and> 8 \<le> length q \<and> (\<forall>c\<in>set q. allowed nd c) \<and>
        ([10::nat] = [] \<or> [10] = [10::nat])"
      using pol by (simp add: password_policy_iff)
    then have tail: "\<exists>ys zs. q @ [10] = ys @ zs \<and> 8 \<le> length ys \<and>
        (\<forall>c\<in>set ys. allowed nd c) \<and> (zs = [] \<or> zs = [10])"
      by blast
    have "\<exists>ys c zs. q @ [10] = ys @ c # zs \<and> 10 \<notin> set ys \<and> lower c"
      using pol unfolding password_policy_iff
      by (intro lookahead_last_newline [of q "lower", OF nl newline_not_in_class(1), THEN iffD2]) blast
    moreover have "\<exists>ys c zs. q @ [10] = ys @ c # zs \<and> 10 \<notin> set ys \<and> upper c"
      using pol unfolding password_policy_iff
      by (intro lookahead_last_newline [of q "upper", OF nl newline_not_in_class(2), THEN iffD2]) blast
    moreover have "\<exists>ys c zs. q @ [10] = ys @ c # zs \<and> 10 \<notin> set ys \<and> category_digit nd c"
      using pol unfolding password_policy_iff
      by (intro lookahead_last_newline [of q "category_digit nd", OF nl newline_not_in_class(3), THEN iffD2]) blast
    moreover have "\<exists>ys c zs. q @ [10] = ys @ c # zs \<and> 10 \<notin> set ys \<and> special c"
      using pol unfolding password_policy_iff
      by (intro lookahead_last_newline [of q "special", OF nl newline_not_in_class(4), THEN iffD2]) blast
    ultimately show ?thesis
      using tail unfolding validate_password_unfold p by blast
  qed
qed


lemmas validate_eval = validate_password_def re_match_def pattern_def lit_def cls_defs
  accept_def dot_def eval_nat_numeral

text \<open>
  C1. The claim: a password is accepted exactly when it has at least 8 characters, a
  lowercase letter, an uppercase letter, a digit and a special character, and all its
  characters are in the allowed alphabet. The pattern ends in \<open>$\<close>, which also matches
  before a final line feed: \<open>Passw0rd!\<close> followed by a line feed is accepted, and the line
  feed is not in the allowed alphabet.
\<close>

theorem validate_password_accepts_trailing_newline:
  "validate_password nd (lit ''Passw0rd!'' @ [10])
   \<and> \<not> allowed nd 10
   \<and> \<not> password_policy nd (lit ''Passw0rd!'' @ [10])"
proof -
  have "validate_password nd (lit ''Passw0rd!'' @ [10])"
    by (simp add: validate_eval)
  moreover have "\<not> allowed nd 10"
    by (simp add: cls_defs)
  moreover have "\<not> password_policy nd (lit ''Passw0rd!'' @ [10])"
    by (simp add: password_policy_def cls_defs)
  ultimately show ?thesis by blast
qed

section \<open>Register and reset\<close>

lemma Passw0rd_valid: "validate_password nd (lit ''Passw0rd!'')"
  by (simp add: validate_eval)

lemma weak_invalid: "\<not> validate_password nd (lit ''weak'')"
  by (simp add: validate_eval)

lemma register_user_invalid:
  "\<not> validate_password nd password \<Longrightarrow>
   register_user nd db username_arg email_arg password = (Str (lit ''invalid''), db)"
  by (simp add: register_user_def)

lemma register_user_unchanged_unless_True:
  "register_user nd db username_arg email_arg password = (r, db') \<Longrightarrow> r \<noteq> Bool True \<Longrightarrow> db' = db"
  by (auto simp: register_user_def split: if_splits)

lemma register_alice:
  "register_user nd db_empty (lit ''alice'') (lit ''alice@x.com'') (lit ''Passw0rd!'')
     = (Bool True, db_alice)"
  by (simp add: register_user_def Passw0rd_valid db_empty_def db_alice_def alice_row_def
      next_rowid_def)

text \<open>
  C3, as stated: whenever the username or the email is already in the table, the attempt
  reports a conflict. The policy is checked before the insertion: with a password that
  fails it, the attempt to reuse the email of alice returns \<open>"invalid"\<close>, not \<open>False\<close>.
\<close>

theorem register_duplicate_weak_password_counterexample:
  "\<forall>nd. users db_alice = [alice_row]
     \<and> u_email alice_row = lit ''alice@x.com''
     \<and> register_user nd db_alice (lit ''bob'') (lit ''alice@x.com'') (lit ''weak'')
         = (Str (lit ''invalid''), db_alice)
     \<and> Str (lit ''invalid'') \<noteq> Bool False"
  by (simp add: register_user_invalid [OF weak_invalid] db_alice_def alice_row_def)

text \<open>
  C3, amended: with a password that the policy accepts, an attempt that reuses a stored
  username or a stored email returns \<open>False\<close> and leaves the database as it was.
\<close>

theorem register_duplicate_conflict:
  assumes "validate_password nd password"
    and "\<exists>r\<in>set (users db). u_username r = username_arg \<or> u_email r = email_arg"
  shows "register_user nd db username_arg email_arg password = (Bool False, db)"
  using assms by (simp add: register_user_def list_ex_iff)

theorem register_duplicate_conflict_witness:
  "\<forall>nd. validate_password nd (lit ''Passw0rd!'')
     \<and> (\<exists>r\<in>set (users db_alice). u_username r = lit ''bob'' \<or> u_email r = lit ''alice@x.com'')
     \<and> register_user nd db_alice (lit ''bob'') (lit ''alice@x.com'') (lit ''Passw0rd!'')
         = (Bool False, db_alice)"
proof
  fix nd
  have v: "validate_password nd (lit ''Passw0rd!'')"
    by (rule Passw0rd_valid)
  have d: "\<exists>r\<in>set (users db_alice). u_username r = lit ''bob'' \<or> u_email r = lit ''alice@x.com''"
    by (simp add: db_alice_def alice_row_def)
  from register_duplicate_conflict [OF v d] v d
  show "validate_password nd (lit ''Passw0rd!'')
     \<and> (\<exists>r\<in>set (users db_alice). u_username r = lit ''bob'' \<or> u_email r = lit ''alice@x.com'')
     \<and> register_user nd db_alice (lit ''bob'') (lit ''alice@x.com'') (lit ''Passw0rd!'')
         = (Bool False, db_alice)"
    by blast
qed

lemma reset_password_valid:
  "validate_password nd new_password \<Longrightarrow>
   reset_password nd db email_arg new_password =
     (Bool True,
      db\<lparr>users := map (\<lambda>r. if u_email r = email_arg
                              then r\<lparr>u_password := hash_password new_password\<rparr> else r)
                      (users db)\<rparr>)"
  by (simp add: reset_password_def)

text \<open>The second half of C4: the hash of every row with the email is replaced.\<close>

lemma reset_password_replaces_hash:
  assumes "validate_password nd new_password"
    and "reset_password nd db email_arg new_password = (r, db')"
  shows "r = Bool True"
    and "length (users db') = length (users db)"
    and "i < length (users db) \<Longrightarrow> u_email (users db ! i) = email_arg \<Longrightarrow>
         users db' ! i = (users db ! i)\<lparr>u_password := hash_password new_password\<rparr>"
    and "i < length (users db) \<Longrightarrow> u_email (users db ! i) \<noteq> email_arg \<Longrightarrow>
         users db' ! i = users db ! i"
  using assms by (auto simp: reset_password_valid)

text \<open>No result of \<open>reset_password\<close> is false, so the page never says that the email is unknown.\<close>

lemma reset_password_truthy: "truthy (fst (reset_password nd db email_arg new_password))"
  by (simp add: reset_password_def lit_def)

lemma reset_click_never_not_found:
  "fst (reset_click nd db email_arg new_password) \<noteq> EmailNotFound"
  using reset_password_truthy [of nd db email_arg new_password]
  by (auto simp: reset_click_def split: prod.splits)

text \<open>
  C4. The claim: with an email that matches no user, \<open>reset_password\<close> reports not-found.
  The function returns \<open>True\<close> after the \<open>UPDATE\<close> whatever the number of rows it changed:
  in the database that holds alice only, the reset for nobody@x.com returns \<open>True\<close>,
  changes nothing, and the page shows the success message, not the branch
  \<open>st.error("Email not found.")\<close> that the caller has for a false result.
\<close>

theorem reset_password_unknown_email_reports_success:
  "reset_password nd db_alice (lit ''nobody@x.com'') (lit ''Passw0rd!'') = (Bool True, db_alice)
   \<and> reset_click nd db_alice (lit ''nobody@x.com'') (lit ''Passw0rd!'')
       = (PasswordResetSuccessful, db_alice)
   \<and> users db_alice = [alice_row]
   \<and> u_email alice_row \<noteq> lit ''nobody@x.com''"
proof -
  have ne: "u_email alice_row \<noteq> lit ''nobody@x.com''"
    by (simp add: alice_row_def lit_def)
  have u: "users db_alice = [alice_row]"
    by (simp add: db_alice_def)
  have r: "reset_password nd db_alice (lit ''nobody@x.com'') (lit ''Passw0rd!'')
      = (Bool True, db_alice)"
    by (simp add: reset_password_valid [OF Passw0rd_valid] u ne)
  have "reset_click nd db_alice (lit ''nobody@x.com'') (lit ''Passw0rd!'')
      = (PasswordResetSuccessful, db_alice)"
  proof -
    have "lit ''nobody@x.com'' \<noteq> []" "lit ''Passw0rd!'' \<noteq> []"
      by (simp_all add: lit_def)
    then show ?thesis
      by (simp add: reset_click_def r Passw0rd_valid)
  qed
  with r u ne show ?thesis by blast
qed

section \<open>Advice gateway\<close>


text \<open>The answers of the gateway when nothing fails.\<close>

lemma get_gemini_response_text:
  "gen prompt = Inr resp \<Longrightarrow> resp_str resp = Inr s \<Longrightarrow> resp_text resp = HasText t \<Longrightarrow>
   get_gemini_response gen prompt = Inr t"
  by (simp add: get_gemini_response_def try_body_def getattr_text_def)

lemma get_gemini_response_no_text:
  "gen prompt = Inr resp \<Longrightarrow> resp_str resp = Inr s \<Longrightarrow>
   resp_text resp = NoText \<or> (\<exists>e. resp_text resp = TextRaises e \<and> exc_class e = AttributeErrorClass) \<Longrightarrow>
   get_gemini_response gen prompt = Inr s"
  by (auto simp: get_gemini_response_def try_body_def getattr_text_def)

lemma get_gemini_response_answers: "get_gemini_response (answers t) prompt = Inr t"
  by (simp add: get_gemini_response_text [where s = t] answers_def)








section \<open>Hashing, register and login\<close>

text \<open>The test vector of FIPS 180-4 for the message \<open>abc\<close>, and the digests of the scenario.\<close>

lemma hash_password_abc:
  "hash_password (lit ''abc'') = lit ''ba7816bf8f01cfea414140de5dae2223b00361a396177a9cb410ff61f20015ad''"
  by code_simp

lemma hash_password_Passw0rd:
  "hash_password (lit ''Passw0rd!'') = lit ''e66860546f18cdbbcd86b35e18b525bffc67f772c650cedfe3ff7a0026fa1dee''"
  by code_simp

lemma hash_password_wrong:
  "hash_password (lit ''wrong'') = lit ''8810ad581e59f2bc3928b261707a71308f7e139eb04820366dc4d5c18d980225''"
  by code_simp

lemma length_hex32: "length (hex32 w) = 8"
  by (simp add: hex32_def)

text \<open>The digest is a fixed-length string: 64 characters.\<close>

lemma length_hexdigest: "length (hexdigest s) = 64"
  by (cases s rule: hexdigest.cases) (simp add: length_hex32)

lemma length_hash_password: "length (hash_password p) = 64"
  by (simp add: hash_password_def length_hexdigest)

text \<open>There are finitely many digests, and infinitely many passwords that the policy accepts.\<close>

lemma finite_digests: "finite (range hash_password)"
proof (rule finite_subset)
  show "range hash_password \<subseteq> range hexdigest"
    by (auto simp: hash_password_def)
  show "finite (range hexdigest)"
    by simp
qed

lemma long_password_valid: "validate_password nd (lit ''Passw0rd!'' @ replicate n 97)"
proof -
  have "allowed nd 97"
    by (simp add: cls_defs)
  then have "list_all (allowed nd) (replicate n 97)"
    by (simp add: list_all_iff)
  moreover have "password_policy nd (lit ''Passw0rd!'')"
    by (simp add: password_policy_def lit_def cls_defs)
  ultimately have "password_policy nd (lit ''Passw0rd!'' @ replicate n 97)"
    by (simp add: password_policy_def)
  then show ?thesis
    by (simp add: validate_password_iff)
qed

lemma hash_password_collision:
  "\<exists>p p'. p' \<noteq> p \<and> validate_password nd p \<and> hash_password p' = hash_password p"
proof -
  let ?f = "\<lambda>n. lit ''Passw0rd!'' @ replicate n 97"
  have "finite (range (\<lambda>n. hash_password (?f n)))"
    by (rule finite_subset [OF _ finite_digests]) auto
  then have "\<not> inj (\<lambda>n. hash_password (?f n))"
    using finite_imageD infinite_UNIV_nat by blast
  then obtain m n where mn: "m \<noteq> n" and h: "hash_password (?f m) = hash_password (?f n)"
    by (auto simp: inj_def)
  from mn have "?f m \<noteq> ?f n"
    by (auto dest: arg_cong [where f = length])
  with h long_password_valid [of nd n] show ?thesis
    by blast
qed

lemma find_after:
  "find P xs = None \<Longrightarrow> find P (xs @ ys) = find P ys"
  by (induction xs) (auto split: if_splits)

lemma register_user_True:
  assumes "register_user nd db username_arg email_arg p = (Bool True, db')"
  shows "validate_password nd p"
    and "\<forall>r\<in>set (users db). u_username r \<noteq> username_arg \<and> u_email r \<noteq> email_arg"
    and "users db' = users db @
           [\<lparr>u_id = next_rowid (users_seq db) (map u_id (users db)), u_username = username_arg, u_email = email_arg,
             u_password = hash_password p\<rparr>]"
  using assms by (auto simp: register_user_def list_ex_iff split: if_splits)

lemma login_after_register:
  assumes "register_user nd db username_arg email_arg p = (Bool True, db')"
  shows "login_user db' email_arg p' =
     (if hash_password p' = hash_password p
      then Some \<lparr>u_id = next_rowid (users_seq db) (map u_id (users db)), u_username = username_arg, u_email = email_arg,
                 u_password = hash_password p\<rparr>
      else None)"
proof -
  note r = register_user_True [OF assms]
  have "find (\<lambda>r. u_email r = email_arg \<and> u_password r = hash_password p') (users db) = None"
    using r(2) by (auto simp: find_None_iff)
  then show ?thesis
    by (simp add: login_user_def r(3) find_after eq_commute)
qed

text \<open>
  C2, as stated: after a successful register, login with the email and any other
  plaintext fails. Login compares digests, and the digest has 64 hexadecimal characters
  whatever the length of the password: two different passwords that the policy accepts
  have the same digest, and after a register with one of them login with the other one
  returns the row.
\<close>

theorem login_other_plaintext_counterexample:
  "\<forall>nd. \<not> (\<forall>db username_arg email_arg p p' db'.
       register_user nd db username_arg email_arg p = (Bool True, db') \<longrightarrow> p' \<noteq> p \<longrightarrow>
       login_user db' email_arg p' = None)"
proof (intro allI notI)
  fix nd
  assume claim: "\<forall>db username_arg email_arg p p' db'.
       register_user nd db username_arg email_arg p = (Bool True, db') \<longrightarrow> p' \<noteq> p \<longrightarrow>
       login_user db' email_arg p' = None"
  obtain p p' where ne: "p' \<noteq> p" and v: "validate_password nd p"
    and h: "hash_password p' = hash_password p"
    using hash_password_collision [of nd] by blast
  obtain db' where r: "register_user nd db_empty (lit ''alice'') (lit ''alice@x.com'') p = (Bool True, db')"
    using v by (simp add: register_user_def db_empty_def)
  from claim r ne have "login_user db' (lit ''alice@x.com'') p' = None"
    by blast
  with login_after_register [OF r, of p'] h show False
    by simp
qed

text \<open>
  C2, amended: after a successful register, login with the email and the original
  plaintext returns the row that the register inserted, whose stored digest is the digest
  of the plaintext, and login with the email and a plaintext of another digest returns
  \<open>None\<close>.
\<close>

theorem register_then_login:
  assumes "register_user nd db username_arg email_arg p = (Bool True, db')"
  shows "validate_password nd p
    \<and> login_user db' email_arg p =
        Some \<lparr>u_id = next_rowid (users_seq db) (map u_id (users db)), u_username = username_arg, u_email = email_arg,
               u_password = hash_password p\<rparr>
    \<and> (\<forall>p'. hash_password p' \<noteq> hash_password p \<longrightarrow> login_user db' email_arg p' = None)"
  using register_user_True(1) [OF assms] login_after_register [OF assms] by simp

theorem register_then_login_witness:
  "\<forall>nd. register_user nd db_empty (lit ''alice'') (lit ''alice@x.com'') (lit ''Passw0rd!'')
       = (Bool True, db_alice)
     \<and> hash_password (lit ''wrong'') \<noteq> hash_password (lit ''Passw0rd!'')
     \<and> login_user db_alice (lit ''alice@x.com'') (lit ''Passw0rd!'') = Some alice_row
     \<and> login_user db_alice (lit ''alice@x.com'') (lit ''wrong'') = None"
proof
  fix nd
  have r: "register_user nd db_empty (lit ''alice'') (lit ''alice@x.com'') (lit ''Passw0rd!'')
       = (Bool True, db_alice)"
    by (rule register_alice)
  have d: "hash_password (lit ''wrong'') \<noteq> hash_password (lit ''Passw0rd!'')"
    unfolding hash_password_wrong hash_password_Passw0rd by (simp add: lit_def)
  from register_then_login [OF r]
  have "login_user db_alice (lit ''alice@x.com'') (lit ''Passw0rd!'') = Some alice_row"
    and "login_user db_alice (lit ''alice@x.com'') (lit ''wrong'') = None"
    using d by (simp_all add: db_empty_def alice_row_def next_rowid_def)
  with r d
  show "register_user nd db_empty (lit ''alice'') (lit ''alice@x.com'') (lit ''Passw0rd!'')
       = (Bool True, db_alice)
     \<and> hash_password (lit ''wrong'') \<noteq> hash_password (lit ''Passw0rd!'')
     \<and> login_user db_alice (lit ''alice@x.com'') (lit ''Passw0rd!'') = Some alice_row
     \<and> login_user db_alice (lit ''alice@x.com'') (lit ''wrong'') = None"
    by blast
qed

section \<open>Categorization: \<open>.strip().split()[0]\<close>\<close>

lemma split_from_word:
  "cur \<noteq> [] \<Longrightarrow>
   split_from cur s =
     (rev cur @ takeWhile (\<lambda>c. \<not> isspace c) s) # split_from [] (dropWhile (\<lambda>c. \<not> isspace c) s)"
  by (induction s arbitrary: cur) auto

lemma split_from_Nil:
  "split_from [] s =
     (case dropWhile isspace s of
        [] \<Rightarrow> []
      | c # cs \<Rightarrow>
          (c # takeWhile (\<lambda>c. \<not> isspace c) cs) # split_from [] (dropWhile (\<lambda>c. \<not> isspace c) cs))"
  by (induction s) (auto simp: split_from_word)

lemma strip_blank:
  assumes "list_all isspace r"
  shows "strip r = []"
proof -
  from assms have d: "dropWhile isspace r = []"
    by (induction r) simp_all
  show ?thesis
    unfolding strip_def d by simp
qed

lemma category_of_blank: "list_all isspace r \<Longrightarrow> category_of r = Inl IndexError"
  by (simp add: category_of_def strip_blank split_def item0_def)

lemma dropWhile_strip: "dropWhile isspace (strip r) = strip r"
proof (cases "dropWhile isspace r")
  case Nil
  show ?thesis unfolding strip_def Nil by simp
next
  case (Cons c cs)
  then have c: "\<not> isspace c"
    by (metis dropWhile_eq_Cons_conv)
  have "rev (dropWhile isspace (rev (c # cs))) = c # tl (rev (dropWhile isspace (rev (c # cs))))"
    using c by (induction cs rule: rev_induct) auto
  then obtain ws where "strip r = c # ws"
    using Cons by (auto simp: strip_def)
  with c show ?thesis by simp
qed

lemma takeWhile_rstrip:
  "takeWhile (\<lambda>c. \<not> isspace c) (rev (dropWhile isspace (rev w))) = takeWhile (\<lambda>c. \<not> isspace c) w"
proof -
  let ?u = "rev (dropWhile isspace (rev w))" and ?v = "rev (takeWhile isspace (rev w))"
  have w: "w = ?u @ ?v"
    by (metis rev_append rev_rev_ident takeWhile_dropWhile_id)
  have v: "takeWhile (\<lambda>c. \<not> isspace c) ?v = []"
  proof (cases ?v)
    case Nil
    then show ?thesis by simp
  next
    case (Cons a as)
    then have "a \<in> set (takeWhile isspace (rev w))"
      by (metis list.set_intros(1) set_rev)
    then have "isspace a" by (rule set_takeWhileD [THEN conjunct2])
    with Cons show ?thesis by simp
  qed
  have "takeWhile (\<lambda>c. \<not> isspace c) (?u @ ?v) = takeWhile (\<lambda>c. \<not> isspace c) ?u"
  proof (cases "\<forall>c\<in>set ?u. \<not> isspace c")
    case True
    then have "takeWhile (\<lambda>c. \<not> isspace c) (?u @ ?v) = ?u @ takeWhile (\<lambda>c. \<not> isspace c) ?v"
      by (intro takeWhile_append2) blast
    also have "\<dots> = ?u"
      unfolding v by simp
    also have "\<dots> = takeWhile (\<lambda>c. \<not> isspace c) ?u"
      using True by (intro takeWhile_eq_all_conv [THEN iffD2, symmetric])
    finally show ?thesis .
  next
    case False
    then obtain x where "x \<in> set ?u" "\<not> \<not> isspace x" by blast
    then show ?thesis
      by (rule takeWhile_append1)
  qed
  with w show ?thesis by simp
qed

text \<open>When the response has a character that is not whitespace, the label is its first word.\<close>

lemma category_of_token:
  assumes "\<not> list_all isspace r"
  shows "category_of r = Inr (takeWhile (\<lambda>c. \<not> isspace c) (dropWhile isspace r))"
proof -
  from assms obtain c cs where d: "dropWhile isspace r = c # cs"
    by (cases "dropWhile isspace r") (auto simp: list_all_iff dropWhile_eq_Nil_conv)
  then have c: "\<not> isspace c"
    by (metis dropWhile_eq_Cons_conv)
  have "takeWhile (\<lambda>c. \<not> isspace c) (strip r) = takeWhile (\<lambda>c. \<not> isspace c) (dropWhile isspace r)"
    unfolding strip_def by (rule takeWhile_rstrip)
  with d c obtain ws where s: "strip r = c # ws"
    by (cases "strip r") (auto split: if_splits)
  have "split (strip r) =
      (c # takeWhile (\<lambda>c. \<not> isspace c) ws) # split_from [] (dropWhile (\<lambda>c. \<not> isspace c) ws)"
    unfolding split_def
    by (subst split_from_Nil) (simp add: dropWhile_strip [of r, unfolded s] s c)
  moreover have "c # takeWhile (\<lambda>c. \<not> isspace c) ws = takeWhile (\<lambda>c. \<not> isspace c) (strip r)"
    using s c by simp
  ultimately show ?thesis
    by (simp add: category_of_def item0_def strip_def takeWhile_rstrip)
qed

lemma category_of_Transport: "category_of (lit ''Transport'') = Inr (lit ''Transport'')"
  by (subst category_of_token) (simp_all add: lit_def isspace_def)

text \<open>
  C10. The claim: deriving the label from the response never raises, also for an empty or
  whitespace-only response. \<open>split()\<close> of such a string is the empty list and \<open>[0]\<close>
  raises \<open>IndexError\<close>, which nothing on the page catches: the submission stops before
  the insertion.
\<close>

theorem categorize_empty_response_raises:
  "category_of [] = Inl IndexError
   \<and> category_of (lit ''   '') = Inl IndexError
   \<and> categorize (answers []) description = Inl IndexError
   \<and> add_expense (answers []) numeric db ss d amount description = Inl IndexError"
proof -
  have "category_of [] = Inl IndexError"
    by (simp add: category_of_blank)
  moreover have "category_of (lit ''   '') = Inl IndexError"
    by (rule category_of_blank) (simp add: lit_def isspace_def)
  moreover have c: "categorize (answers []) description = Inl IndexError"
    by (simp add: categorize_def get_gemini_response_answers category_of_blank)
  moreover have "add_expense (answers []) numeric db ss d amount description = Inl IndexError"
    by (simp add: add_expense_def c)
  ultimately show ?thesis by blast
qed

section \<open>Add Expense: the owner of an expense\<close>

lemma integer_affinity_text:
  "\<not> list_ex ascii_digit t \<Longrightarrow> integer_affinity numeric t = SqlText t"
  by (simp add: integer_affinity_def)

text \<open>What the insertion stores as owner is the username of the session.\<close>

lemma add_expense_owner:
  assumes "add_expense gen numeric db ss d amount description = Inr db'"
  shows "\<exists>u category. username ss = Some u \<and>
     expenses db' = expenses db @
       [\<lparr>e_id = next_rowid (expenses_seq db) (map e_id (expenses db)),
         e_user_id = integer_affinity numeric u, e_date = d,
         e_category = category, e_amount = amount, e_description = description\<rparr>]"
  using assms
  by (auto simp: add_expense_def insert_expense_def split: sum.splits option.splits)

lemma login_alice:
  "login_click db_alice session_init (lit ''alice@x.com'') (lit ''Passw0rd!'')
     = (WelcomeBack, alice_session)"
  by (simp add: login_click_def login_user_def db_alice_def alice_row_def session_init_def
      alice_session_def)

text \<open>
  C8. The claim: the owner field of a new expense holds the id of an existing user. The
  insertion binds \<open>st.session_state.username\<close> to \<open>user_id\<close>: for alice, whose id is 1,
  the Uber ride, whatever its amount, is stored with the text \<open>alice\<close> as owner, which is
  the id of no user.
\<close>

theorem add_expense_stores_username:
  "add_expense (answers (lit ''Transport'')) numeric db_alice alice_session
       \<lparr>year = 2024, month = 1, day = 5\<rparr> amount (lit ''Uber ride'')
     = Inr (db_alice\<lparr>expenses := [uber_ride amount], expenses_seq := 1\<rparr>)
   \<and> e_user_id (uber_ride amount) = SqlText (lit ''alice'')
   \<and> u_id alice_row = 1
   \<and> list_all (\<lambda>u. e_user_id (uber_ride amount) \<noteq> SqlInteger (u_id u)) (users db_alice)"
proof -
  have c: "categorize (answers (lit ''Transport'')) (lit ''Uber ride'') = Inr (lit ''Transport'')"
    by (simp add: categorize_def get_gemini_response_answers category_of_Transport)
  have a: "integer_affinity numeric (lit ''alice'') = SqlText (lit ''alice'')"
    by (rule integer_affinity_text) (simp add: lit_def ascii_digit_def range_cls_def)
  have "add_expense (answers (lit ''Transport'')) numeric db_alice alice_session
       \<lparr>year = 2024, month = 1, day = 5\<rparr> amount (lit ''Uber ride'')
     = Inr (db_alice\<lparr>expenses := [uber_ride amount], expenses_seq := 1\<rparr>)"
    by (simp add: add_expense_def c insert_expense_def alice_session_def a)
      (simp add: db_alice_def uber_ride_def next_rowid_def)
  moreover have "e_user_id (uber_ride amount) = SqlText (lit ''alice'')"
    by (simp add: uber_ride_def)
  moreover have "u_id alice_row = 1"
    by (simp add: alice_row_def)
  moreover have "list_all (\<lambda>u. e_user_id (uber_ride amount) \<noteq> SqlInteger (u_id u)) (users db_alice)"
    by (simp add: db_alice_def uber_ride_def)
  ultimately show ?thesis by blast
qed

section \<open>Dashboard: no data\<close>

lemma dashboard_page_no_rows:
  "select_expenses numeric db (username ss) = [] \<Longrightarrow>
   dashboard_page gsum ssum numeric db ss = NoExpensesYet"
  by (simp add: dashboard_page_def report_def)

lemma report_uber_ride:
  "report gsum ssum [uber_ride a]
     = Charts [uber_ride a] [(lit ''Transport'', gsum [a])] [(lit ''2024-01'', gsum [a])]
         (ssum [a])"
  by (simp add: report_def category_summary_def monthly_def monthly_groups_def groupby_sum_def
      groupby_def total_expense_def uber_ride_def to_period_M_def period_str_def digit_def
      lit_def)

text \<open>
  C7. For the empty sequence of expenses the dashboard gives the no-data result, which is
  no report; a report is produced only from at least one expense, and from every
  non-empty sequence, whatever its amounts are, zero included.
\<close>

theorem report_no_data_iff_empty:
  "report gsum ssum [] = NoExpensesYet
   \<and> NoExpensesYet \<noteq> Charts t c m tot
   \<and> (report gsum ssum df = Charts t c m tot \<longrightarrow> df \<noteq> [])
   \<and> (df \<noteq> [] \<longrightarrow>
        report gsum ssum df
          = Charts df (category_summary gsum df) (monthly gsum df) (total_expense ssum df))"
  by (auto simp: report_def)

theorem report_no_data_iff_empty_witness:
  "\<forall>gsum ssum a. report gsum ssum [] = NoExpensesYet
     \<and> report gsum ssum [uber_ride a]
         = Charts [uber_ride a] [(lit ''Transport'', gsum [a])] [(lit ''2024-01'', gsum [a])]
             (ssum [a])
     \<and> [uber_ride a] \<noteq> []
     \<and> NoExpensesYet
         \<noteq> Charts [uber_ride a] [(lit ''Transport'', gsum [a])] [(lit ''2024-01'', gsum [a])]
             (ssum [a])"
proof (intro allI)
  fix gsum ssum a
  show "report gsum ssum [] = NoExpensesYet
     \<and> report gsum ssum [uber_ride a]
         = Charts [uber_ride a] [(lit ''Transport'', gsum [a])] [(lit ''2024-01'', gsum [a])]
             (ssum [a])
     \<and> [uber_ride a] \<noteq> []
     \<and> NoExpensesYet
         \<noteq> Charts [uber_ride a] [(lit ''Transport'', gsum [a])] [(lit ''2024-01'', gsum [a])]
             (ssum [a])"
    using report_no_data_iff_empty
      [of gsum ssum "[uber_ride a]" "[(lit ''Transport'', gsum [a])]"
          "[(lit ''2024-01'', gsum [a])]" "ssum [a]" "[uber_ride a]"]
      report_uber_ride [of gsum ssum a]
    by simp
qed

section \<open>Dashboard: grouping\<close>

lemma add_to_group_keys:
  "fst ` set (add_to_group k v g) = insert k (fst ` set g)"
  by (induction k v g rule: add_to_group.induct) (simp_all add: insert_commute)

lemma add_to_group_sorted:
  "sorted_wrt (<) (map fst g) \<Longrightarrow> sorted_wrt (<) (map fst (add_to_group k v g))"
proof (induction g)
  case Nil
  then show ?case by simp
next
  case (Cons a g)
  obtain k' vs where a: "a = (k', vs)" by (cases a)
  from Cons.prems a have later: "\<forall>x\<in>fst ` set g. k' < x" and sg: "sorted_wrt (<) (map fst g)"
    by auto
  show ?case
  proof (cases "k = k' \<or> k < k'")
    case True
    with later sg a show ?thesis by auto
  next
    case False
    then have "k' < k" by auto
    with later have "\<forall>x\<in>fst ` set (add_to_group k v g). k' < x"
      unfolding add_to_group_keys by simp
    with False a Cons.IH [OF sg] show ?thesis by simp
  qed
qed

text \<open>A new amount goes to the end of the group of its key.\<close>

lemma add_to_group_map_of:
  "sorted_wrt (<) (map fst g) \<Longrightarrow>
   map_of (add_to_group k v g) =
     (map_of g)(k \<mapsto> (case map_of g k of None \<Rightarrow> [v] | Some vs \<Rightarrow> vs @ [v]))"
proof (induction g)
  case Nil
  then show ?case by simp
next
  case (Cons a g)
  obtain k' vs where a: "a = (k', vs)" by (cases a)
  from Cons.prems a have later: "\<forall>x\<in>fst ` set g. k' < x" and sg: "sorted_wrt (<) (map fst g)"
    by auto
  consider "k = k'" | "k < k'" | "k' < k" by (rule linorder_cases)
  then show ?case
  proof cases
    case 1
    with a show ?thesis by auto
  next
    case 2
    with later have "k \<notin> fst ` set g" by auto
    then have "map_of g k = None" by (simp add: map_of_eq_None_iff)
    with 2 a show ?thesis by auto
  next
    case 3
    with a Cons.IH [OF sg] show ?thesis by auto
  qed
qed

lemma groupby_snoc:
  "groupby key (df @ [e]) = add_to_group (key e) (e_amount e) (groupby key df)"
  by (simp add: groupby_def)

lemma groupby_sorted: "sorted_wrt (<) (map fst (groupby key df))"
proof (induction df rule: rev_induct)
  case Nil
  then show ?case by (simp add: groupby_def)
next
  case (snoc e df)
  then show ?case by (simp only: groupby_snoc add_to_group_sorted)
qed

lemma groupby_keys: "fst ` set (groupby key df) = key ` set df"
proof (induction df rule: rev_induct)
  case Nil
  then show ?case by (simp add: groupby_def)
next
  case (snoc e df)
  then show ?case by (simp add: groupby_snoc add_to_group_keys)
qed

lemma group_amounts_absent: "k \<notin> key ` set df \<Longrightarrow> group_amounts key df k = []"
  by (induction df) (auto simp: group_amounts_def)

lemma group_amounts_snoc:
  "group_amounts key (df @ [e]) k =
     group_amounts key df k @ (if key e = k then [e_amount e] else [])"
  by (simp add: group_amounts_def)

text \<open>The group of a key holds the amounts of the rows with that key, in their order.\<close>

lemma groupby_map_of:
  "map_of (groupby key df) k =
     (if k \<in> key ` set df then Some (group_amounts key df k) else None)"
proof (induction df arbitrary: k rule: rev_induct)
  case Nil
  then show ?case by (simp add: groupby_def)
next
  case (snoc e df)
  show ?case
    unfolding groupby_snoc add_to_group_map_of [OF groupby_sorted]
    by (auto simp: snoc.IH group_amounts_snoc group_amounts_absent)
qed

lemma distinct_keys_table:
  "distinct (map fst g) \<Longrightarrow> g = map (\<lambda>k. (k, the (map_of g k))) (map fst g)"
proof (induction g)
  case Nil
  then show ?case by simp
next
  case (Cons a g)
  obtain k v where a: "a = (k, v)" by (cases a)
  with Cons.prems have k: "k \<notin> fst ` set g" and d: "distinct (map fst g)"
    by auto
  have "map (\<lambda>x. (x, the (map_of (a # g) x))) (map fst g)
      = map (\<lambda>x. (x, the (map_of g x))) (map fst g)"
  proof (rule map_cong [OF refl])
    fix x assume "x \<in> set (map fst g)"
    with k have "x \<noteq> k" by auto
    then show "(x, the (map_of (a # g) x)) = (x, the (map_of g x))"
      by (simp add: a)
  qed
  also have "\<dots> = g"
    using Cons.IH [OF d] by simp
  finally show ?case
    by (simp add: a)
qed

text \<open>
  The groups of \<open>groupby\<close>, in closed form: the keys that occur, in ascending order
  without repetition, each with the amounts of the rows that have the key.
\<close>

lemma groupby_eq:
  "groupby key df = map (\<lambda>k. (k, group_amounts key df k)) (sort (remdups (map key df)))"
proof -
  let ?g = "groupby key df"
  have s: "sorted (map fst ?g)" and d: "distinct (map fst ?g)"
    using groupby_sorted [of key df] by (simp_all add: strict_sorted_iff)
  have "set (map fst ?g) = set (sort (remdups (map key df)))"
    by (simp add: groupby_keys)
  with s d have keys: "map fst ?g = sort (remdups (map key df))"
    by (intro sorted_distinct_set_unique) simp_all
  have "?g = map (\<lambda>k. (k, the (map_of ?g k))) (map fst ?g)"
    using d by (rule distinct_keys_table)
  also have "\<dots> = map (\<lambda>k. (k, group_amounts key df k)) (map fst ?g)"
  proof (rule map_cong [OF refl])
    fix k assume "k \<in> set (map fst ?g)"
    then have "k \<in> key ` set df"
      by (simp add: groupby_keys)
    then show "(k, the (map_of ?g k)) = (k, group_amounts key df k)"
      by (simp add: groupby_map_of)
  qed
  finally show ?thesis
    unfolding keys .
qed

lemma groupby_sum_eq:
  "groupby_sum gsum key df =
     map (\<lambda>k. (k, gsum (group_amounts key df k))) (sort (remdups (map key df)))"
  by (simp add: groupby_sum_def groupby_eq comp_def)

lemma groupby_sum_keys: "map fst (groupby_sum gsum key df) = map fst (groupby key df)"
  by (simp add: groupby_sum_def comp_def case_prod_beta)

lemma period_less: "((y, m) < (y', m')) = (y < y' \<or> y = y' \<and> m < m')"
  for y m y' m' :: nat
  by auto

lemma monthly_groups_eq_spec: "monthly_groups gsum df = monthly_totals_spec gsum df"
  by (simp add: monthly_groups_def monthly_totals_spec_def groupby_sum_eq group_amounts_def)

lemma monthly_groups_example:
  "monthly_groups gsum [uber_ride a, groceries b, metro_ride c]
     = [((2023, 12), gsum [b]), ((2024, 1), gsum [a, c])]"
  by (simp add: monthly_groups_def groupby_sum_def groupby_def uber_ride_def groceries_def
      metro_ride_def to_period_M_def)

text \<open>
  C6. For a non-empty sequence of expenses the monthly totals have one row for each
  (year, month) of a date of the sequence, the row of a month holds the sum of the amounts
  of the expenses of that month, and the rows are in strictly ascending order of
  (year, month), that is, of time. The sum of a month is the sum that pandas computes, in
  float64, from the amounts of the expenses of the month in the order of the sequence.
  \<open>astype(str)\<close> then writes each month as text and keeps the rows and their order.
\<close>

theorem monthly_totals_grouped_summed_ordered:
  assumes "df \<noteq> []"
  shows "monthly_groups gsum df = monthly_totals_spec gsum df
    \<and> sorted_wrt (<) (map fst (monthly_groups gsum df))
    \<and> fst ` set (monthly_groups gsum df) = (\<lambda>e. to_period_M (e_date e)) ` set df
    \<and> (\<forall>(p, v)\<in>set (monthly_groups gsum df).
          v = gsum (map e_amount (filter (\<lambda>e. to_period_M (e_date e) = p) df)))
    \<and> monthly_groups gsum df \<noteq> []
    \<and> monthly gsum df = map (\<lambda>(p, v). (period_str p, v)) (monthly_groups gsum df)"
proof -
  let ?key = "\<lambda>e. to_period_M (e_date e)"
  have 1: "monthly_groups gsum df = monthly_totals_spec gsum df"
    by (rule monthly_groups_eq_spec)
  have 2: "sorted_wrt (<) (map fst (monthly_groups gsum df))"
    unfolding monthly_groups_def groupby_sum_keys by (rule groupby_sorted)
  have "set (map fst (monthly_groups gsum df)) = ?key ` set df"
    unfolding monthly_groups_def groupby_sum_keys by (simp add: groupby_keys)
  then have 3: "fst ` set (monthly_groups gsum df) = ?key ` set df"
    by simp
  have 4: "\<forall>(p, v)\<in>set (monthly_groups gsum df).
      v = gsum (map e_amount (filter (\<lambda>e. ?key e = p) df))"
    unfolding monthly_groups_def groupby_sum_eq by (auto simp: group_amounts_def)
  from assms 3 have 5: "monthly_groups gsum df \<noteq> []"
    by (cases df) auto
  have 6: "monthly gsum df = map (\<lambda>(p, v). (period_str p, v)) (monthly_groups gsum df)"
    by (simp add: monthly_def)
  from 1 2 3 4 5 6 show ?thesis by blast
qed

theorem monthly_totals_grouped_summed_ordered_witness:
  "\<forall>gsum a b c. [uber_ride a, groceries b, metro_ride c] \<noteq> []
     \<and> monthly_groups gsum [uber_ride a, groceries b, metro_ride c]
         = [((2023, 12), gsum [b]), ((2024, 1), gsum [a, c])]
     \<and> monthly_totals_spec gsum [uber_ride a, groceries b, metro_ride c]
         = [((2023, 12), gsum [b]), ((2024, 1), gsum [a, c])]
     \<and> monthly gsum [uber_ride a, groceries b, metro_ride c]
         = [(lit ''2023-12'', gsum [b]), (lit ''2024-01'', gsum [a, c])]"
proof (intro allI)
  fix gsum a b c
  have ne: "[uber_ride a, groceries b, metro_ride c] \<noteq> []" by simp
  note t = monthly_totals_grouped_summed_ordered [OF ne, of gsum]
  from t have "monthly_groups gsum [uber_ride a, groceries b, metro_ride c]
      = monthly_totals_spec gsum [uber_ride a, groceries b, metro_ride c]"
    by (rule conjunct1)
  from this [symmetric] monthly_groups_example [of gsum a b c]
  have s: "monthly_totals_spec gsum [uber_ride a, groceries b, metro_ride c]
      = [((2023, 12), gsum [b]), ((2024, 1), gsum [a, c])]"
    by (rule trans)
  from t have m: "monthly gsum [uber_ride a, groceries b, metro_ride c]
      = [(lit ''2023-12'', gsum [b]), (lit ''2024-01'', gsum [a, c])]"
    by (simp add: monthly_groups_example period_str_def digit_def lit_def)
  from ne s m monthly_groups_example [of gsum a b c]
  show "[uber_ride a, groceries b, metro_ride c] \<noteq> []
     \<and> monthly_groups gsum [uber_ride a, groceries b, metro_ride c]
         = [((2023, 12), gsum [b]), ((2024, 1), gsum [a, c])]
     \<and> monthly_totals_spec gsum [uber_ride a, groceries b, metro_ride c]
         = [((2023, 12), gsum [b]), ((2024, 1), gsum [a, c])]
     \<and> monthly gsum [uber_ride a, groceries b, metro_ride c]
         = [(lit ''2023-12'', gsum [b]), (lit ''2024-01'', gsum [a, c])]"
    by blast
qed

section \<open>Session controller: logout\<close>

lemma logout_click_fields:
  "logged_in (logout_click ss) = False"
  "username (logout_click ss) = None"
  "email (logout_click ss) = email ss"
  "page (logout_click ss) = page ss"
  by (simp_all add: logout_click_def)

text \<open>
  C9. The claim: from a logged-in session, logout leaves \<open>logged_in\<close> false and both the
  username and the email empty. The handler assigns \<open>logged_in\<close> and \<open>username\<close> only:
  in the session of alice the flag and the username are cleared and the email stays.
\<close>

theorem logout_keeps_email:
  "logged_in (logout_click alice_session) = False
   \<and> username (logout_click alice_session) = None
   \<and> email (logout_click alice_session) = Some (lit ''alice@x.com'')"
  by (simp add: logout_click_def alice_session_def)

end
